theory Spec2Isabelle
  imports Main "HOL-Library.Dlist"
begin

section \<open>The chat backend of src/main.py: connection registry and broadcast fan-out\<close>

text \<open>
  The program keeps one \<^verbatim>\<open>ConnectionManager\<close> whose only field is the Python set
  \<^verbatim>\<open>active_connections\<close> of WebSocket objects. A WebSocket is compared and hashed by
  object identity, so a connection is modelled by its identity, a natural number. The
  set is a duplicate-free list (\<open>conn dlist\<close>): \<^verbatim>\<open>add\<close> is \<open>Dlist.insert\<close>,
  \<^verbatim>\<open>discard\<close> is \<open>Dlist.remove\<close>, \<^verbatim>\<open>list(...)\<close> is \<open>list_of_dlist\<close>, truthiness is
  \<open>\<not> Dlist.null\<close> and \<^verbatim>\<open>len\<close> is \<open>Dlist.length\<close>. Python fixes no iteration order
  for a set; the theorems below count events and never depend on the order.

  Every call the program makes on a WebSocket (\<^verbatim>\<open>accept\<close>, \<^verbatim>\<open>send_text\<close>,
  \<^verbatim>\<open>receive_text\<close>, \<^verbatim>\<open>close\<close>) is an event appended to a trace in the order in which
  the calls are initiated. What such a call returns or raises is decided outside the
  program (by the peer and the network), so it is read from an environment that may
  answer differently at every point of the history. Logging touches neither a
  connection nor the registry and is left out. The model follows one coroutine at a
  time: what other coroutines do while this one is suspended is not part of it.
\<close>

type_synonym conn = nat

text \<open>
  The handlers of \<^verbatim>\<open>websocket_endpoint\<close> separate \<^verbatim>\<open>WebSocketDisconnect\<close> from every
  other \<^verbatim>\<open>Exception\<close>. What is raised outside \<^verbatim>\<open>Exception\<close> (the cancellation of a
  task, an interrupt of the process) is not modelled.
\<close>

datatype exn = WebSocketDisconnect | OtherException

datatype event =
    Accept conn
  | SendText conn string
  | ReceiveText conn
  | Close conn

record env =
  accept_result :: "event list \<Rightarrow> conn \<Rightarrow> exn option"
  send_text_result :: "event list \<Rightarrow> conn \<Rightarrow> string \<Rightarrow> exn option"
  receive_text_result :: "event list \<Rightarrow> conn \<Rightarrow> exn + string"
  close_result :: "event list \<Rightarrow> conn \<Rightarrow> exn option"

record world =
  active_connections :: "conn dlist"
  trace :: "event list"

subsection \<open>ConnectionManager\<close>

text \<open>
  \<^verbatim>\<open>connect\<close> (lines 37-41): \<^verbatim>\<open>await websocket.accept()\<close>, then
  \<^verbatim>\<open>self.active_connections.add(websocket)\<close>. An exception of \<^verbatim>\<open>accept\<close> leaves the
  method before the \<^verbatim>\<open>add\<close>.
\<close>

definition connect :: "env \<Rightarrow> world \<Rightarrow> conn \<Rightarrow> (exn + unit) \<times> world" where
  "connect env w websocket =
     (let w1 = w\<lparr>trace := trace w @ [Accept websocket]\<rparr> in
      case accept_result env (trace w) websocket of
        Some e \<Rightarrow> (Inl e, w1)
      | None \<Rightarrow>
          (Inr (), w1\<lparr>active_connections := Dlist.insert websocket (active_connections w1)\<rparr>))"

text \<open>
  \<^verbatim>\<open>disconnect\<close> (lines 43-45) is a plain method whose body is
  \<^verbatim>\<open>self.active_connections.discard(websocket)\<close>; \<^verbatim>\<open>discard\<close> has no raising path, so
  the model is a function to the new state.
\<close>

definition disconnect :: "world \<Rightarrow> conn \<Rightarrow> world" where
  "disconnect w websocket =
     w\<lparr>active_connections := Dlist.remove websocket (active_connections w)\<rparr>"

text \<open>\<^verbatim>\<open>send_personal_message\<close> (lines 47-48): \<^verbatim>\<open>await websocket.send_text(message)\<close>.\<close>

definition send_personal_message ::
    "env \<Rightarrow> world \<Rightarrow> string \<Rightarrow> conn \<Rightarrow> (exn + unit) \<times> world" where
  "send_personal_message env w message websocket =
     (let w1 = w\<lparr>trace := trace w @ [SendText websocket message]\<rparr> in
      case send_text_result env (trace w) websocket message of
        Some e \<Rightarrow> (Inl e, w1)
      | None \<Rightarrow> (Inr (), w1))"

text \<open>
  The \<^verbatim>\<open>for\<close> loop of \<^verbatim>\<open>broadcast\<close> (lines 56-60) over the snapshot
  \<^verbatim>\<open>list(self.active_connections)\<close>: a connection is skipped when
  \<^verbatim>\<open>exclude is not None and conn is exclude\<close>, otherwise the pending call
  \<^verbatim>\<open>conn.send_text(message)\<close> is appended to \<^verbatim>\<open>send_tasks\<close>. A pending call is the pair
  of its connection and its text.
\<close>

fun build_send_tasks :: "conn list \<Rightarrow> string \<Rightarrow> conn option \<Rightarrow> (conn \<times> string) list" where
  "build_send_tasks [] message exclude = []"
| "build_send_tasks (conn # rest) message exclude =
     (if exclude \<noteq> None \<and> Some conn = exclude
      then build_send_tasks rest message exclude
      else (conn, message) # build_send_tasks rest message exclude)"

text \<open>
  \<^verbatim>\<open>asyncio.gather(*send_tasks, return_exceptions=True)\<close> (line 65) starts every pending
  call and, with \<^verbatim>\<open>return_exceptions=True\<close>, hands an exception of a call back as that
  call's entry of the result list instead of raising it.
\<close>

fun run_send_tasks ::
    "env \<Rightarrow> event list \<Rightarrow> (conn \<times> string) list \<Rightarrow> exn option list \<times> event list" where
  "run_send_tasks env tr [] = ([], tr)"
| "run_send_tasks env tr ((conn, message) # tasks) =
     (let r = send_text_result env tr conn message;
          (rs, tr') = run_send_tasks env (tr @ [SendText conn message]) tasks
      in (r # rs, tr'))"

definition gather_return_exceptions ::
    "env \<Rightarrow> event list \<Rightarrow> (conn \<times> string) list \<Rightarrow> (exn + exn option list) \<times> event list" where
  "gather_return_exceptions env tr tasks =
     (let (rs, tr') = run_send_tasks env tr tasks in (Inr rs, tr'))"

text \<open>
  \<^verbatim>\<open>broadcast\<close> (lines 50-67): return at once on an empty registry; build the pending
  calls; when there is one, await the gather inside \<^verbatim>\<open>try ... except Exception\<close>, whose
  handler only logs. The results of the gather are dropped.
\<close>

definition broadcast ::
    "env \<Rightarrow> world \<Rightarrow> string \<Rightarrow> conn option \<Rightarrow> (exn + unit) \<times> world" where
  "broadcast env w message exclude =
     (if Dlist.null (active_connections w) then (Inr (), w)
      else
        let send_tasks = build_send_tasks (list_of_dlist (active_connections w)) message exclude
        in if send_tasks \<noteq> [] then
             (case gather_return_exceptions env (trace w) send_tasks of
                (Inl e, tr') \<Rightarrow> (Inr (), w\<lparr>trace := tr'\<rparr>)
              | (Inr results, tr') \<Rightarrow> (Inr (), w\<lparr>trace := tr'\<rparr>))
           else (Inr (), w))"

text \<open>
  The result list that the gather inside \<^verbatim>\<open>broadcast\<close> returns and the method drops,
  paired with the connection of each entry: \<open>(c, Some e)\<close> says that the write to \<open>c\<close>
  raised \<open>e\<close> during this broadcast.
\<close>

definition broadcast_outcomes ::
    "env \<Rightarrow> world \<Rightarrow> string \<Rightarrow> conn option \<Rightarrow> (conn \<times> exn option) list" where
  "broadcast_outcomes env w message exclude =
     (let send_tasks = build_send_tasks (list_of_dlist (active_connections w)) message exclude
      in zip (map fst send_tasks) (fst (run_send_tasks env (trace w) send_tasks)))"

subsection \<open>The endpoint\<close>

text \<open>
  The \<^verbatim>\<open>while True\<close> loop of \<^verbatim>\<open>websocket_endpoint\<close> (lines 86-92). It is left only by an
  exception, and it runs for as long as the peer keeps sending, so the model takes a
  bound on the number of iterations: the result is \<open>Some e\<close> when the loop was left by
  the exception \<open>e\<close>, and \<open>None\<close> when the coroutine is still inside the loop after that
  many iterations.
\<close>

fun receive_loop :: "nat \<Rightarrow> env \<Rightarrow> world \<Rightarrow> conn \<Rightarrow> string \<Rightarrow> exn option \<times> world" where
  "receive_loop 0 env w websocket client_id = (None, w)"
| "receive_loop (Suc n) env w websocket client_id =
     (let w1 = w\<lparr>trace := trace w @ [ReceiveText websocket]\<rparr> in
      case receive_text_result env (trace w) websocket of
        Inl e \<Rightarrow> (Some e, w1)
      | Inr data \<Rightarrow>
          (case send_personal_message env w1 (''You wrote: '' @ data) websocket of
             (Inl e, w2) \<Rightarrow> (Some e, w2)
           | (Inr u, w2) \<Rightarrow>
               (case broadcast env w2 (''Client #'' @ client_id @ '' says: '' @ data)
                       (Some websocket) of
                  (Inl e, w3) \<Rightarrow> (Some e, w3)
                | (Inr v, w3) \<Rightarrow> receive_loop n env w3 websocket client_id)))"

text \<open>The body of the \<^verbatim>\<open>try\<close> (lines 84-92): the join notice, then the loop.\<close>

definition endpoint_try ::
    "nat \<Rightarrow> env \<Rightarrow> world \<Rightarrow> conn \<Rightarrow> string \<Rightarrow> exn option \<times> world" where
  "endpoint_try n env w websocket client_id =
     (case broadcast env w (''Client #'' @ client_id @ '' joined'') None of
        (Inl e, w1) \<Rightarrow> (Some e, w1)
      | (Inr u, w1) \<Rightarrow> receive_loop n env w1 websocket client_id)"

text \<open>
  \<^verbatim>\<open>websocket_endpoint\<close> (lines 80-104). \<^verbatim>\<open>connect\<close> stands before the \<^verbatim>\<open>try\<close>, so its
  exception leaves the endpoint. The handler of \<^verbatim>\<open>WebSocketDisconnect\<close> disconnects and
  broadcasts the departure; the handler of any other exception closes the socket and,
  in its \<^verbatim>\<open>finally\<close>, disconnects and broadcasts, after which an exception of \<^verbatim>\<open>close\<close>
  is raised again. The result is \<open>None\<close> while the coroutine is still in its loop.
\<close>

definition websocket_endpoint ::
    "nat \<Rightarrow> env \<Rightarrow> world \<Rightarrow> conn \<Rightarrow> string \<Rightarrow> (exn + unit) option \<times> world" where
  "websocket_endpoint n env w websocket client_id =
     (case connect env w websocket of
        (Inl e, w1) \<Rightarrow> (Some (Inl e), w1)
      | (Inr u, w1) \<Rightarrow>
          (case endpoint_try n env w1 websocket client_id of
             (None, w2) \<Rightarrow> (None, w2)
           | (Some WebSocketDisconnect, w2) \<Rightarrow>
               (case broadcast env (disconnect w2 websocket)
                       (''Client #'' @ client_id @ '' left the chat'') None of
                  (r, w3) \<Rightarrow> (Some r, w3))
           | (Some OtherException, w2) \<Rightarrow>
               (let closed = close_result env (trace w2) websocket;
                    w3 = w2\<lparr>trace := trace w2 @ [Close websocket]\<rparr>
                in case broadcast env (disconnect w3 websocket)
                          (''Client #'' @ client_id @ '' left the chat(error)'') None of
                     (Inl e, w4) \<Rightarrow> (Some (Inl e), w4)
                   | (Inr v, w4) \<Rightarrow>
                       (case closed of
                          Some e \<Rightarrow> (Some (Inl e), w4)
                        | None \<Rightarrow> (Some (Inr ()), w4)))))"

subsection \<open>Sequences of registry calls\<close>

text \<open>
  A caller's sequence of \<^verbatim>\<open>connect\<close> and \<^verbatim>\<open>disconnect\<close> calls on the manager, run in
  order; an exception of a \<^verbatim>\<open>connect\<close> is the caller's to handle and the sequence goes on.
\<close>

datatype registry_call = Connect conn | Disconnect conn

fun registry_step :: "env \<Rightarrow> world \<Rightarrow> registry_call \<Rightarrow> world" where
  "registry_step env w (Connect c) = snd (connect env w c)"
| "registry_step env w (Disconnect c) = disconnect w c"

definition run_calls :: "env \<Rightarrow> world \<Rightarrow> registry_call list \<Rightarrow> world" where
  "run_calls env w calls = foldl (registry_step env) w calls"

subsection \<open>The order of one connection's operations, as the specification states it\<close>

text \<open>
  The specification's loop for one connection (its sections 5 and 6): read a message;
  on success send the echo to the same connection, then broadcast the message text to
  the others. As an acceptor of the event sequences of the connection \<open>websocket\<close>,
  which says where in that loop the connection stands: \<open>Idle\<close> before the first read,
  \<open>Reading\<close> after a read, \<open>Echoed data\<close> after the echo of \<open>data\<close>. After a read only
  the echo \<^verbatim>\<open>You wrote: ...\<close> to \<open>websocket\<close> itself may follow; after the echo of
  \<open>data\<close> only writes of \<^verbatim>\<open>Client #... says: data\<close> to connections other than
  \<open>websocket\<close>, or the next read. A sequence may stop anywhere: the loop may be left,
  or still be running.
\<close>

datatype phase = Idle | Reading | Echoed string

fun loop_order :: "conn \<Rightarrow> string \<Rightarrow> phase \<Rightarrow> event list \<Rightarrow> bool" where
  "loop_order websocket client_id ph [] = True"
| "loop_order websocket client_id Idle (e # es) =
     (e = ReceiveText websocket \<and> loop_order websocket client_id Reading es)"
| "loop_order websocket client_id Reading (e # es) =
     (case e of
        SendText c m \<Rightarrow>
          c = websocket \<and> take 11 m = ''You wrote: '' \<and>
          loop_order websocket client_id (Echoed (drop 11 m)) es
      | _ \<Rightarrow> False)"
| "loop_order websocket client_id (Echoed data) (e # es) =
     (case e of
        SendText c m \<Rightarrow>
          c \<noteq> websocket \<and> m = ''Client #'' @ client_id @ '' says: '' @ data \<and>
          loop_order websocket client_id (Echoed data) es
      | ReceiveText c \<Rightarrow> c = websocket \<and> loop_order websocket client_id Reading es
      | _ \<Rightarrow> False)"

definition echo_then_broadcast :: "conn \<Rightarrow> string \<Rightarrow> event list \<Rightarrow> bool" where
  "echo_then_broadcast websocket client_id ev = loop_order websocket client_id Idle ev"

subsection \<open>Concrete environments and registries\<close>

text \<open>An environment in which every call succeeds and every read finds the peer gone.\<close>

definition quiet_env :: env where
  "quiet_env =
     \<lparr>accept_result = (\<lambda>tr c. None),
      send_text_result = (\<lambda>tr c m. None),
      receive_text_result = (\<lambda>tr c. Inl WebSocketDisconnect),
      close_result = (\<lambda>tr c. None)\<rparr>"

text \<open>An environment in which every write to connection 2 fails.\<close>

definition broken2_env :: env where
  "broken2_env =
     \<lparr>accept_result = (\<lambda>tr c. None),
      send_text_result = (\<lambda>tr c m. if c = 2 then Some OtherException else None),
      receive_text_result = (\<lambda>tr c. Inl WebSocketDisconnect),
      close_result = (\<lambda>tr c. None)\<rparr>"

text \<open>An environment in which connection 1 sends \<open>hi\<close> once and is gone afterwards.\<close>

definition chatty_env :: env where
  "chatty_env =
     \<lparr>accept_result = (\<lambda>tr c. None),
      send_text_result = (\<lambda>tr c m. None),
      receive_text_result =
        (\<lambda>tr c. if ReceiveText c \<in> set tr then Inl WebSocketDisconnect else Inr ''hi''),
      close_result = (\<lambda>tr c. None)\<rparr>"

text \<open>An environment in which no handshake succeeds.\<close>

definition refusing_env :: env where
  "refusing_env =
     \<lparr>accept_result = (\<lambda>tr c. Some OtherException),
      send_text_result = (\<lambda>tr c m. None),
      receive_text_result = (\<lambda>tr c. Inl WebSocketDisconnect),
      close_result = (\<lambda>tr c. None)\<rparr>"

definition registry_of :: "conn list \<Rightarrow> world" where
  "registry_of cs = \<lparr>active_connections = dlist_of_list cs, trace = []\<rparr>"

section \<open>Properties\<close>

subsection \<open>Auxiliary facts\<close>

lemma build_send_tasks_filter:
  "build_send_tasks cs m ex = map (\<lambda>c. (c, m)) (filter (\<lambda>c. Some c \<noteq> ex) cs)"
  by (induction cs) auto

lemma run_send_tasks_trace:
  "snd (run_send_tasks env tr tasks) = tr @ map (\<lambda>(c, m). SendText c m) tasks"
  by (induction tasks arbitrary: tr) (auto simp: case_prod_unfold Let_def)

lemma run_send_tasks_length:
  "length (fst (run_send_tasks env tr tasks)) = length tasks"
  by (induction tasks arbitrary: tr) (auto simp: case_prod_unfold Let_def)

lemma broadcast_result: "fst (broadcast env w m ex) = Inr ()"
  by (simp add: broadcast_def gather_return_exceptions_def Let_def split: prod.splits sum.splits)

lemma broadcast_registry:
  "active_connections (snd (broadcast env w m ex)) = active_connections w"
  by (simp add: broadcast_def gather_return_exceptions_def Let_def split: prod.splits sum.splits)

lemma null_list_of_dlist: "Dlist.null d \<longleftrightarrow> list_of_dlist d = []"
  by (simp add: Dlist.null_def)

lemma broadcast_trace:
  "trace (snd (broadcast env w m ex)) =
     trace w @ map (\<lambda>c. SendText c m) (filter (\<lambda>c. Some c \<noteq> ex) (list_of_dlist (active_connections w)))"
proof (cases "Dlist.null (active_connections w)")
  case True
  then show ?thesis
    by (simp add: broadcast_def null_list_of_dlist)
next
  case False
  let ?ts = "build_send_tasks (list_of_dlist (active_connections w)) m ex"
  show ?thesis
  proof (cases "?ts = []")
    case True
    with False show ?thesis
      by (simp add: broadcast_def Let_def build_send_tasks_filter)
  next
    case nonempty: False
    have "trace (snd (broadcast env w m ex)) = snd (run_send_tasks env (trace w) ?ts)"
      using False nonempty
      by (simp add: broadcast_def gather_return_exceptions_def Let_def split: prod.splits)
    then show ?thesis
      by (simp add: run_send_tasks_trace build_send_tasks_filter comp_def)
  qed
qed

lemma member_iff: "Dlist.member d c \<longleftrightarrow> c \<in> set (list_of_dlist d)"
  by (simp add: Dlist.member_def)

lemma count_list_sends:
  "count_list (map (\<lambda>c. SendText c m) xs) (SendText c m') = (if m' = m then count_list xs c else 0)"
  by (induction xs) auto

lemma count_list_distinct:
  "distinct xs \<Longrightarrow> count_list xs x = (if x \<in> set xs then 1 else 0)"
  by (induction xs) auto

lemma count_list_filter:
  "count_list (filter P xs) x = (if P x then count_list xs x else 0)"
  by (induction xs) auto

lemma broadcast_count:
  "count_list (map (\<lambda>c. SendText c m) (filter (\<lambda>c. Some c \<noteq> ex) (list_of_dlist d))) (SendText c m) =
     (if Dlist.member d c \<and> ex \<noteq> Some c then 1 else 0)"
  by (simp add: count_list_sends count_list_filter count_list_distinct member_iff)

lemma broadcast_outcomes_fst:
  "map fst (broadcast_outcomes env w m ex) =
     filter (\<lambda>c. Some c \<noteq> ex) (list_of_dlist (active_connections w))"
  by (simp add: broadcast_outcomes_def Let_def run_send_tasks_length build_send_tasks_filter comp_def)

lemma broadcast_eq:
  "broadcast env w m ex =
     (Inr (), w\<lparr>trace := trace w @ map (\<lambda>c. SendText c m)
        (filter (\<lambda>c. Some c \<noteq> ex) (list_of_dlist (active_connections w)))\<rparr>)"
proof -
  have "snd (broadcast env w m ex) = w\<lparr>trace := trace (snd (broadcast env w m ex))\<rparr>"
    by (simp add: broadcast_def gather_return_exceptions_def Let_def split: prod.splits sum.splits)
  then have "snd (broadcast env w m ex) = w\<lparr>trace := trace w @ map (\<lambda>c. SendText c m)
        (filter (\<lambda>c. Some c \<noteq> ex) (list_of_dlist (active_connections w)))\<rparr>"
    by (simp only: broadcast_trace)
  with broadcast_result [of env w m ex] show ?thesis
    by (metis prod.collapse)
qed

lemma loop_order_after_echo:
  "loop_order websocket client_id Idle later \<Longrightarrow> loop_order websocket client_id (Echoed data) later"
  by (cases later) auto

lemma loop_order_broadcast:
  "websocket \<notin> set others \<Longrightarrow> loop_order websocket client_id (Echoed data) later \<Longrightarrow>
     loop_order websocket client_id (Echoed data)
       (map (\<lambda>c. SendText c (''Client #'' @ client_id @ '' says: '' @ data)) others @ later)"
  by (induction others) auto

lemma order_idle: "echo_then_broadcast websocket client_id []"
  by (simp add: echo_then_broadcast_def)

lemma order_read_only: "echo_then_broadcast websocket client_id [ReceiveText websocket]"
  by (simp add: echo_then_broadcast_def)

lemma order_echo_only:
  "echo_then_broadcast websocket client_id
     [ReceiveText websocket, SendText websocket (''You wrote: '' @ data)]"
  by (simp add: echo_then_broadcast_def)

lemma order_message:
  assumes "websocket \<notin> set others" and "echo_then_broadcast websocket client_id later"
  shows "echo_then_broadcast websocket client_id
       (ReceiveText websocket # SendText websocket (''You wrote: '' @ data) #
        map (\<lambda>c. SendText c (''Client #'' @ client_id @ '' says: '' @ data)) others @ later)"
proof -
  from assms(2) have "loop_order websocket client_id (Echoed data) later"
    by (simp add: echo_then_broadcast_def loop_order_after_echo)
  from loop_order_broadcast [OF assms(1) this] show ?thesis
    by (simp add: echo_then_broadcast_def)
qed

lemma loop_order_no_join_notice:
  "loop_order websocket client_id ph ev \<Longrightarrow>
     SendText c (''Client #'' @ client_id @ '' joined'') \<notin> set ev"
proof (induction ev arbitrary: ph)
  case Nil
  show ?case by simp
next
  case (Cons e es)
  then show ?case
    by (cases ph) (auto split: event.splits)
qed

lemma receive_loop_events:
  "\<exists>ev. trace (snd (receive_loop n env w websocket client_id)) = trace w @ ev \<and>
        echo_then_broadcast websocket client_id ev"
proof (induction n arbitrary: w)
  case 0
  show ?case by (simp add: order_idle)
next
  case (Suc n)
  let ?w1 = "w\<lparr>trace := trace w @ [ReceiveText websocket]\<rparr>"
  show ?case
  proof (cases "receive_text_result env (trace w) websocket")
    case (Inl e)
    then show ?thesis by (simp add: order_read_only)
  next
    case (Inr data)
    let ?echo = "''You wrote: '' @ data"
    show ?thesis
    proof (cases "send_text_result env (trace ?w1) websocket ?echo")
      case (Some e)
      with Inr order_echo_only [of websocket client_id data] show ?thesis
        by (simp add: send_personal_message_def)
    next
      case None
      let ?others = "filter (\<lambda>c. Some c \<noteq> Some websocket) (list_of_dlist (active_connections w))"
      let ?says = "''Client #'' @ client_id @ '' says: '' @ data"
      let ?w3 = "w\<lparr>trace := trace w @ ReceiveText websocket # SendText websocket ?echo #
                   map (\<lambda>c. SendText c ?says) ?others\<rparr>"
      have step: "receive_loop (Suc n) env w websocket client_id =
          receive_loop n env ?w3 websocket client_id"
        using Inr None by (simp add: send_personal_message_def broadcast_eq)
      from Suc.IH [of ?w3] obtain later where
        later: "trace (snd (receive_loop n env ?w3 websocket client_id)) = trace ?w3 @ later"
          "echo_then_broadcast websocket client_id later"
        by blast
      have "websocket \<notin> set ?others" by simp
      from order_message [OF this later(2), of data]
      show ?thesis using later(1) step by simp
    qed
  qed
qed

lemma session_no_join_notice:
  "echo_then_broadcast websocket client_id ev \<Longrightarrow>
     SendText c (''Client #'' @ client_id @ '' joined'') \<notin> set ev"
  using loop_order_no_join_notice [of websocket client_id Idle ev c]
  by (simp add: echo_then_broadcast_def)


lemma endpoint_events:
  assumes "accept_result env (trace w) websocket = None"
  shows "\<exists>rest. trace (snd (websocket_endpoint n env w websocket client_id)) =
           trace w @ Accept websocket #
             map (\<lambda>c. SendText c (''Client #'' @ client_id @ '' joined''))
               (list_of_dlist (Dlist.insert websocket (active_connections w))) @ rest \<and>
           (\<forall>c. SendText c (''Client #'' @ client_id @ '' joined'') \<notin> set rest)"
proof -
  let ?join = "''Client #'' @ client_id @ '' joined''"
  let ?w2 = "w\<lparr>active_connections := Dlist.insert websocket (active_connections w),
               trace := trace w @ Accept websocket #
                 map (\<lambda>c. SendText c ?join) (list_of_dlist (Dlist.insert websocket (active_connections w)))\<rparr>"
  obtain r w' where loop: "receive_loop n env ?w2 websocket client_id = (r, w')"
    by (cases "receive_loop n env ?w2 websocket client_id")
  from receive_loop_events [of n env ?w2 websocket client_id] loop obtain ev where
    ev: "trace w' = trace ?w2 @ ev" "echo_then_broadcast websocket client_id ev"
    by auto
  have nojoin: "\<And>c. SendText c ?join \<notin> set ev"
    using session_no_join_notice [OF ev(2)] by blast
  have body: "endpoint_try n env (snd (connect env w websocket)) websocket client_id = (r, w')"
    using assms loop by (simp add: endpoint_try_def connect_def broadcast_eq Let_def)
  have conn: "connect env w websocket = (Inr (), snd (connect env w websocket))"
    using assms by (simp add: connect_def Let_def)
  show ?thesis
  proof (cases r)
    case None
    have "websocket_endpoint n env w websocket client_id = (None, w')"
      unfolding websocket_endpoint_def by (subst conn) (simp add: body None)
    with ev nojoin show ?thesis by simp
  next
    case (Some e)
    show ?thesis
    proof (cases e)
      case WebSocketDisconnect
      have "trace (snd (websocket_endpoint n env w websocket client_id)) =
          trace w' @ map (\<lambda>c. SendText c (''Client #'' @ client_id @ '' left the chat''))
            (list_of_dlist (Dlist.remove websocket (active_connections w')))"
        unfolding websocket_endpoint_def
        by (subst conn) (simp add: body Some WebSocketDisconnect broadcast_eq disconnect_def)
      with ev nojoin show ?thesis by auto
    next
      case OtherException
      have "trace (snd (websocket_endpoint n env w websocket client_id)) =
          trace w' @ Close websocket #
            map (\<lambda>c. SendText c (''Client #'' @ client_id @ '' left the chat(error)''))
              (list_of_dlist (Dlist.remove websocket (active_connections w')))"
        unfolding websocket_endpoint_def
        by (subst conn) (simp add: body Some OtherException broadcast_eq disconnect_def Let_def split: option.splits)
      with ev nojoin show ?thesis by auto
    qed
  qed
qed

lemma count_list_notice:
  "SendText c m \<notin> set rest \<Longrightarrow> distinct xs \<Longrightarrow>
     count_list (Accept a # map (\<lambda>c. SendText c m) xs @ rest) (SendText c m) =
       (if c \<in> set xs then 1 else 0)"
  by (simp add: count_list_sends count_list_distinct)

lemma run_calls_snoc: "run_calls env w (cs @ [x]) = registry_step env (run_calls env w cs) x"
  by (simp add: run_calls_def)

lemma connected_snoc_Connect:
  "(\<exists>pre post. cs @ [Connect c'] = pre @ Connect c # post \<and> Q pre c \<and> Disconnect c \<notin> set post) \<longleftrightarrow>
   (\<exists>pre post. cs = pre @ Connect c # post \<and> Q pre c \<and> Disconnect c \<notin> set post) \<or> (c = c' \<and> Q cs c')"
  (is "?L \<longleftrightarrow> ?R \<or> ?N")
proof
  assume ?L
  then obtain pre post where
    eq: "cs @ [Connect c'] = pre @ Connect c # post" and q: "Q pre c" and d: "Disconnect c \<notin> set post"
    by blast
  show "?R \<or> ?N"
  proof (cases post rule: rev_cases)
    case Nil
    with eq q show ?thesis by simp
  next
    case (snoc post' y)
    with eq have "cs = pre @ Connect c # post'" by simp
    moreover from snoc d have "Disconnect c \<notin> set post'" by simp
    ultimately show ?thesis using q by blast
  qed
next
  assume "?R \<or> ?N"
  then show ?L
  proof
    assume ?R
    then obtain pre post where
      "cs = pre @ Connect c # post" "Q pre c" "Disconnect c \<notin> set post"
      by blast
    then have "cs @ [Connect c'] = pre @ Connect c # (post @ [Connect c']) \<and> Q pre c \<and>
        Disconnect c \<notin> set (post @ [Connect c'])"
      by simp
    then show ?L by blast
  next
    assume ?N
    then have "cs @ [Connect c'] = cs @ Connect c # [] \<and> Q cs c \<and> Disconnect c \<notin> set []"
      by simp
    then show ?L by blast
  qed
qed

lemma connected_snoc_Disconnect:
  "(\<exists>pre post. cs @ [Disconnect c'] = pre @ Connect c # post \<and> Q pre c \<and> Disconnect c \<notin> set post) \<longleftrightarrow>
   (\<exists>pre post. cs = pre @ Connect c # post \<and> Q pre c \<and> Disconnect c \<notin> set post) \<and> c \<noteq> c'"
  (is "?L \<longleftrightarrow> ?R \<and> ?N")
proof
  assume ?L
  then obtain pre post where
    eq: "cs @ [Disconnect c'] = pre @ Connect c # post" and q: "Q pre c" and d: "Disconnect c \<notin> set post"
    by blast
  show "?R \<and> ?N"
  proof (cases post rule: rev_cases)
    case Nil
    with eq show ?thesis by simp
  next
    case (snoc post' y)
    with eq have "cs = pre @ Connect c # post'" and "y = Disconnect c'" by simp_all
    moreover from snoc d have "Disconnect c \<notin> set post'" and "y \<noteq> Disconnect c" by auto
    ultimately show ?thesis using q by blast
  qed
next
  assume "?R \<and> ?N"
  then obtain pre post where
    "cs = pre @ Connect c # post" "Q pre c" "Disconnect c \<notin> set post" "c \<noteq> c'"
    by blast
  then have "cs @ [Disconnect c'] = pre @ Connect c # (post @ [Disconnect c']) \<and> Q pre c \<and>
      Disconnect c \<notin> set (post @ [Disconnect c'])"
    by simp
  then show ?L by blast
qed

lemma connect_members:
  "set (list_of_dlist (active_connections (snd (connect env w c)))) =
     (if fst (connect env w c) = Inr () then insert c (set (list_of_dlist (active_connections w)))
      else set (list_of_dlist (active_connections w)))"
  by (simp add: connect_def Let_def split: option.splits)

lemma disconnect_members:
  "set (list_of_dlist (active_connections (disconnect w c))) =
     set (list_of_dlist (active_connections w)) - {c}"
  by (simp add: disconnect_def)

lemma members_run_calls:
  "Dlist.null (active_connections w) \<Longrightarrow>
     set (list_of_dlist (active_connections (run_calls env w calls))) =
       {c. \<exists>pre post. calls = pre @ Connect c # post \<and>
             fst (connect env (run_calls env w pre) c) = Inr () \<and> Disconnect c \<notin> set post}"
proof (induction calls rule: rev_induct)
  case Nil
  then show ?case
    by (simp add: run_calls_def null_list_of_dlist)
next
  case (snoc x xs)
  show ?case
  proof (cases x)
    case (Connect c')
    show ?thesis
      unfolding Connect run_calls_snoc registry_step.simps connect_members
        connected_snoc_Connect [where Q = "\<lambda>pre c. fst (connect env (run_calls env w pre) c) = Inr ()"]
        snoc.IH [OF snoc.prems]
      by auto
  next
    case (Disconnect c')
    show ?thesis
      unfolding Disconnect run_calls_snoc registry_step.simps disconnect_members
        connected_snoc_Disconnect [where Q = "\<lambda>pre c. fst (connect env (run_calls env w pre) c) = Inr ()"]
        snoc.IH [OF snoc.prems]
      by auto
  qed
qed

subsection \<open>Broadcast and the registry\<close>

text \<open>
  C10. \<^verbatim>\<open>broadcast\<close> never changes the registry: for every message, every \<^verbatim>\<open>exclude\<close>
  argument, every membership set and every pattern of succeeding and failing writes
  (every environment), the set of active connections after the call is the set before it.
\<close>

theorem broadcast_keeps_registry:
  "active_connections (snd (broadcast env w message exclude)) = active_connections w"
  by (rule broadcast_registry)

theorem broadcast_keeps_registry_witness:
  "active_connections (snd (broadcast broken2_env (registry_of [1, 2, 3]) ''m'' (Some 1))) =
     dlist_of_list [1, 2, 3]"
  using broadcast_keeps_registry [of broken2_env "registry_of [1, 2, 3]" "''m''" "Some 1"]
  by (simp add: registry_of_def)

text \<open>
  C4. \<^verbatim>\<open>broadcast\<close> on an empty registry returns normally and at once: for every message
  and every \<^verbatim>\<open>exclude\<close> argument the result is a normal return and the state, trace
  included, is the one before the call, so no write was initiated.
\<close>

theorem broadcast_empty_registry:
  "Dlist.null (active_connections w) \<Longrightarrow> broadcast env w message exclude = (Inr (), w)"
  by (simp add: broadcast_def)

theorem broadcast_empty_registry_witness:
  "Dlist.null (active_connections (registry_of [])) \<and>
   broadcast broken2_env (registry_of []) ''m'' (Some 2) = (Inr (), registry_of []) \<and>
   trace (snd (broadcast broken2_env (registry_of []) ''m'' (Some 2))) = []"
proof -
  have h: "Dlist.null (active_connections (registry_of []))"
    by (simp add: registry_of_def null_list_of_dlist)
  from broadcast_empty_registry [OF h, of broken2_env "''m''" "Some 2"] h
  show ?thesis by (simp add: registry_of_def)
qed

text \<open>
  C5. \<^verbatim>\<open>disconnect\<close> of a connection that is not in the membership set changes nothing
  (and, being a total function to the new state, has no error to raise); hence a second
  \<^verbatim>\<open>disconnect\<close> of the same connection changes nothing after the first.
\<close>

theorem disconnect_absent_noop:
  "(\<not> Dlist.member (active_connections w) c \<longrightarrow> disconnect w c = w) \<and>
   disconnect (disconnect w c) c = disconnect w c"
  by (simp add: disconnect_def member_iff dlist_eq_iff remove1_idem)

theorem disconnect_absent_noop_witness:
  "\<not> Dlist.member (active_connections (registry_of [1, 3])) 2 \<and>
   disconnect (registry_of [1, 3]) 2 = registry_of [1, 3] \<and>
   disconnect (disconnect (registry_of [1, 3]) 1) 1 = registry_of [3]"
  using disconnect_absent_noop [of "registry_of [1, 3]" 2]
        disconnect_absent_noop [of "registry_of [1, 3]" 1]
  by (simp add: registry_of_def member_iff disconnect_def dlist_eq_iff)

text \<open>
  C1. For every message \<open>m\<close>, every registry and every \<^verbatim>\<open>exclude\<close> argument, the events
  that \<^verbatim>\<open>broadcast\<close> appends to the trace are writes of \<open>m\<close> and nothing else, with
  exactly one write to each connection of the registry that is not \<^verbatim>\<open>exclude\<close> and none
  to any other connection, \<^verbatim>\<open>exclude\<close> among them.
\<close>

theorem broadcast_one_write_each:
  "trace (snd (broadcast env w m ex)) =
     trace w @ drop (length (trace w)) (trace (snd (broadcast env w m ex))) \<and>
   (\<forall>c. count_list (drop (length (trace w)) (trace (snd (broadcast env w m ex)))) (SendText c m) =
          (if Dlist.member (active_connections w) c \<and> ex \<noteq> Some c then 1 else 0)) \<and>
   (\<forall>e. e \<in> set (drop (length (trace w)) (trace (snd (broadcast env w m ex)))) \<longrightarrow>
          (\<exists>c. e = SendText c m))"
  by (auto simp: broadcast_trace broadcast_count simp del: count_list.simps)

theorem broadcast_one_write_each_witness:
  "trace (snd (broadcast quiet_env (registry_of [1, 2, 3]) ''m'' (Some 1))) =
     [SendText 2 ''m'', SendText 3 ''m''] \<and>
   count_list (trace (snd (broadcast quiet_env (registry_of [1, 2, 3]) ''m'' (Some 1)))) (SendText 2 ''m'') = 1 \<and>
   count_list (trace (snd (broadcast quiet_env (registry_of [1, 2, 3]) ''m'' (Some 1)))) (SendText 3 ''m'') = 1 \<and>
   count_list (trace (snd (broadcast quiet_env (registry_of [1, 2, 3]) ''m'' (Some 1)))) (SendText 1 ''m'') = 0"
  using broadcast_one_write_each [of quiet_env "registry_of [1, 2, 3]" "''m''" "Some 1"]
  by (simp add: registry_of_def member_iff broadcast_trace)

text \<open>
  C2. If, during a broadcast, the write to some connection \<open>b\<close> raises, the call still
  returns normally, and exactly one write of the message was initiated to every other
  connection of the registry that is not excluded.
\<close>

theorem broadcast_isolates_failures:
  "(b, Some e) \<in> set (broadcast_outcomes env w m ex) \<Longrightarrow>
     fst (broadcast env w m ex) = Inr () \<and>
     Dlist.member (active_connections w) b \<and> Some b \<noteq> ex \<and>
     (\<forall>c. Dlist.member (active_connections w) c \<and> Some c \<noteq> ex \<and> c \<noteq> b \<longrightarrow>
        count_list (drop (length (trace w)) (trace (snd (broadcast env w m ex)))) (SendText c m) = 1)"
proof -
  assume "(b, Some e) \<in> set (broadcast_outcomes env w m ex)"
  then have "b \<in> set (map fst (broadcast_outcomes env w m ex))"
    by force
  then have "Dlist.member (active_connections w) b \<and> Some b \<noteq> ex"
    by (simp add: broadcast_outcomes_fst member_iff)
  then show ?thesis
    by (auto simp: broadcast_result broadcast_trace broadcast_count simp del: count_list.simps)
qed

theorem broadcast_isolates_failures_witness:
  "(2, Some OtherException) \<in> set (broadcast_outcomes broken2_env (registry_of [1, 2, 3]) ''m'' (Some 1)) \<and>
   fst (broadcast broken2_env (registry_of [1, 2, 3]) ''m'' (Some 1)) = Inr () \<and>
   count_list (trace (snd (broadcast broken2_env (registry_of [1, 2, 3]) ''m'' (Some 1)))) (SendText 3 ''m'') = 1"
proof -
  have h: "(2, Some OtherException) \<in> set (broadcast_outcomes broken2_env (registry_of [1, 2, 3]) ''m'' (Some 1))"
    by (simp add: broadcast_outcomes_def registry_of_def broken2_env_def)
  from broadcast_isolates_failures [OF h] h show ?thesis
    by (simp add: registry_of_def member_iff)
qed

subsection \<open>Direct send and connect\<close>

text \<open>
  C8. When the write of \<^verbatim>\<open>send_personal_message\<close> raises, the method raises the same
  exception to its caller (after the one write was initiated), whereas \<^verbatim>\<open>broadcast\<close> in
  the same situation returns normally.
\<close>

theorem send_personal_message_propagates:
  "send_text_result env (trace w) c m = Some e \<Longrightarrow>
     send_personal_message env w m c = (Inl e, w\<lparr>trace := trace w @ [SendText c m]\<rparr>) \<and>
     fst (broadcast env w m ex) = Inr ()"
  by (simp add: send_personal_message_def broadcast_result)

theorem send_personal_message_propagates_witness:
  "send_text_result broken2_env (trace (registry_of [1, 2])) 2 ''m'' = Some OtherException \<and>
   fst (send_personal_message broken2_env (registry_of [1, 2]) ''m'' 2) = Inl OtherException \<and>
   fst (broadcast broken2_env (registry_of [1, 2]) ''m'' None) = Inr ()"
proof -
  have h: "send_text_result broken2_env (trace (registry_of [1, 2])) 2 ''m'' = Some OtherException"
    by (simp add: broken2_env_def)
  from send_personal_message_propagates [OF h] h show ?thesis
    by simp
qed

text \<open>
  C6, as the specification states it: \<^verbatim>\<open>connect\<close> performs no handshake and its only
  effect is to add the connection to the membership set. The code differs: \<^verbatim>\<open>connect\<close>
  calls \<^verbatim>\<open>accept\<close> on the connection, and when \<^verbatim>\<open>accept\<close> raises nothing is added.
\<close>

theorem connect_only_adds_counterexample:
  "trace (snd (connect quiet_env (registry_of []) 1)) = [Accept 1] \<and>
   snd (connect quiet_env (registry_of []) 1) \<noteq>
     (registry_of [])\<lparr>active_connections := Dlist.insert 1 (active_connections (registry_of []))\<rparr> \<and>
   active_connections (snd (connect refusing_env (registry_of []) 1)) = Dlist.empty"
  by (simp add: connect_def quiet_env_def refusing_env_def registry_of_def dlist_eq_iff)

text \<open>
  C6, amended: \<^verbatim>\<open>connect\<close> performs the handshake itself. It first calls \<^verbatim>\<open>accept\<close> on
  the connection; when \<^verbatim>\<open>accept\<close> returns, it adds the connection to the membership set
  and returns normally; when \<^verbatim>\<open>accept\<close> raises, the exception reaches the caller and the
  membership set is unchanged.
\<close>

theorem connect_accepts_then_adds:
  "trace (snd (connect env w c)) = trace w @ [Accept c] \<and>
   (accept_result env (trace w) c = None \<longrightarrow>
      fst (connect env w c) = Inr () \<and>
      active_connections (snd (connect env w c)) = Dlist.insert c (active_connections w)) \<and>
   (\<forall>e. accept_result env (trace w) c = Some e \<longrightarrow>
      fst (connect env w c) = Inl e \<and>
      active_connections (snd (connect env w c)) = active_connections w)"
  by (simp add: connect_def Let_def split: option.splits)

theorem connect_accepts_then_adds_witness:
  "accept_result quiet_env (trace (registry_of [2])) 1 = None \<and>
   connect quiet_env (registry_of [2]) 1 =
     (Inr (), \<lparr>active_connections = dlist_of_list [1, 2], trace = [Accept 1]\<rparr>) \<and>
   accept_result refusing_env (trace (registry_of [2])) 1 = Some OtherException \<and>
   connect refusing_env (registry_of [2]) 1 =
     (Inl OtherException, \<lparr>active_connections = dlist_of_list [2], trace = [Accept 1]\<rparr>)"
  using connect_accepts_then_adds [of quiet_env "registry_of [2]" 1]
        connect_accepts_then_adds [of refusing_env "registry_of [2]" 1]
  by (simp add: connect_def quiet_env_def refusing_env_def registry_of_def dlist_eq_iff)

subsection \<open>Sequences of connect and disconnect\<close>

text \<open>
  C3, as the specification states it: after any sequence of \<^verbatim>\<open>connect\<close> and
  \<^verbatim>\<open>disconnect\<close> calls from an empty registry the snapshot has as many entries as
  there are identities with a \<^verbatim>\<open>connect\<close> call and no later \<^verbatim>\<open>disconnect\<close>, and
  \<^verbatim>\<open>connect\<close> of a connection that is already a member is a no-op. The code differs on
  both counts. A \<^verbatim>\<open>connect\<close> whose \<^verbatim>\<open>accept\<close> raises adds nothing: after the single
  call \<^verbatim>\<open>connect(1)\<close> with a refused handshake the snapshot is empty, although
  connection 1 has a \<^verbatim>\<open>connect\<close> call and no \<^verbatim>\<open>disconnect\<close>. And \<^verbatim>\<open>connect\<close> of the
  member 1 calls \<^verbatim>\<open>accept\<close> on it again: the state changes (the call is in the trace),
  and the method raises when that \<^verbatim>\<open>accept\<close> raises.
\<close>

theorem connect_sequence_counterexample:
  "Connect 1 \<in> set [Connect 1] \<and> Disconnect 1 \<notin> set [Connect 1] \<and>
   length (list_of_dlist (active_connections
     (run_calls refusing_env (registry_of []) [Connect 1]))) = 0 \<and>
   Dlist.member (active_connections (registry_of [1])) 1 \<and>
   connect quiet_env (registry_of [1]) 1 =
     (Inr (), \<lparr>active_connections = dlist_of_list [1], trace = [Accept 1]\<rparr>) \<and>
   snd (connect quiet_env (registry_of [1]) 1) \<noteq> registry_of [1] \<and>
   connect refusing_env (registry_of [1]) 1 =
     (Inl OtherException, \<lparr>active_connections = dlist_of_list [1], trace = [Accept 1]\<rparr>)"
  by (simp add: run_calls_def connect_def quiet_env_def refusing_env_def registry_of_def
        member_iff dlist_eq_iff)

text \<open>
  C3, amended. Run any finite sequence of \<^verbatim>\<open>connect\<close> and \<^verbatim>\<open>disconnect\<close> calls from an
  empty registry, in any environment. The length of the snapshot afterwards is the
  number of distinct identities for which a \<^verbatim>\<open>connect\<close> call returned (its \<^verbatim>\<open>accept\<close>
  did not raise) at some point of the sequence and which were not disconnected later in
  the sequence; no identity is counted twice and no disconnected identity is retained.
  A \<^verbatim>\<open>connect\<close> of a connection that is already a member leaves the membership set, and
  so the count, as it was, but it is not a no-op: it calls \<^verbatim>\<open>accept\<close> on the connection
  again, returns normally when that call returns and raises its exception when it
  raises.
\<close>

theorem snapshot_counts_connected:
  "(Dlist.null (active_connections w) \<longrightarrow>
      length (list_of_dlist (active_connections (run_calls env w calls))) =
        card {c. \<exists>pre post. calls = pre @ Connect c # post \<and>
                fst (connect env (run_calls env w pre) c) = Inr () \<and> Disconnect c \<notin> set post}) \<and>
   (Dlist.member (active_connections w) c \<longrightarrow>
      active_connections (snd (connect env w c)) = active_connections w \<and>
      trace (snd (connect env w c)) = trace w @ [Accept c] \<and>
      fst (connect env w c) =
        (case accept_result env (trace w) c of None \<Rightarrow> Inr () | Some e \<Rightarrow> Inl e))"
proof (intro conjI impI)
  assume e: "Dlist.null (active_connections w)"
  have "length (list_of_dlist (active_connections (run_calls env w calls))) =
      card (set (list_of_dlist (active_connections (run_calls env w calls))))"
    by (simp add: distinct_card)
  then show "length (list_of_dlist (active_connections (run_calls env w calls))) =
        card {c. \<exists>pre post. calls = pre @ Connect c # post \<and>
                fst (connect env (run_calls env w pre) c) = Inr () \<and> Disconnect c \<notin> set post}"
    by (simp only: members_run_calls [OF e])
next
  assume "Dlist.member (active_connections w) c"
  then show "active_connections (snd (connect env w c)) = active_connections w"
    by (simp add: connect_def Let_def member_iff dlist_eq_iff split: option.splits)
next
  show "trace (snd (connect env w c)) = trace w @ [Accept c]"
    by (simp add: connect_def Let_def split: option.splits)
next
  show "fst (connect env w c) =
        (case accept_result env (trace w) c of None \<Rightarrow> Inr () | Some e \<Rightarrow> Inl e)"
    by (simp add: connect_def Let_def split: option.splits)
qed

theorem snapshot_counts_connected_witness:
  "Dlist.null (active_connections (registry_of [])) \<and>
   list_of_dlist (active_connections (run_calls quiet_env (registry_of [])
       [Connect 1, Connect 2, Connect 1, Disconnect 2, Disconnect 3, Connect 4])) = [4, 1] \<and>
   card {c. \<exists>pre post.
           [Connect 1, Connect 2, Connect 1, Disconnect 2, Disconnect 3, Connect 4] = pre @ Connect c # post \<and>
           fst (connect quiet_env (run_calls quiet_env (registry_of []) pre) c) = Inr () \<and>
           Disconnect c \<notin> set post} = 2 \<and>
   card {c. \<exists>pre post.
           [Connect 1] = pre @ Connect c # post \<and>
           fst (connect refusing_env (run_calls refusing_env (registry_of []) pre) c) = Inr () \<and>
           Disconnect c \<notin> set post} = 0 \<and>
   Dlist.member (active_connections (registry_of [1])) 1 \<and>
   active_connections (snd (connect quiet_env (registry_of [1]) 1)) = active_connections (registry_of [1]) \<and>
   trace (snd (connect quiet_env (registry_of [1]) 1)) = [Accept 1] \<and>
   fst (connect quiet_env (registry_of [1]) 1) = Inr () \<and>
   fst (connect refusing_env (registry_of [1]) 1) = Inl OtherException"
proof -
  have a: "Dlist.null (active_connections (registry_of []))"
    by (simp add: registry_of_def null_list_of_dlist)
  have b: "list_of_dlist (active_connections (run_calls quiet_env (registry_of [])
       [Connect 1, Connect 2, Connect 1, Disconnect 2, Disconnect 3, Connect 4])) = [4, 1]"
    by (simp add: run_calls_def connect_def disconnect_def registry_of_def quiet_env_def)
  have b': "list_of_dlist (active_connections (run_calls refusing_env (registry_of [])
       [Connect 1])) = []"
    by (simp add: run_calls_def connect_def registry_of_def refusing_env_def)
  have c: "Dlist.member (active_connections (registry_of [1])) 1"
    by (simp add: registry_of_def member_iff)
  from snapshot_counts_connected [of "registry_of []" quiet_env
      "[Connect 1, Connect 2, Connect 1, Disconnect 2, Disconnect 3, Connect 4]" 1 ] a b
  have "card {c. \<exists>pre post.
           [Connect 1, Connect 2, Connect 1, Disconnect 2, Disconnect 3, Connect 4] = pre @ Connect c # post \<and>
           fst (connect quiet_env (run_calls quiet_env (registry_of []) pre) c) = Inr () \<and>
           Disconnect c \<notin> set post} = 2"
    by simp
  moreover from snapshot_counts_connected [of "registry_of []" refusing_env "[Connect 1]" 1] a b'
  have "card {c. \<exists>pre post.
           [Connect 1] = pre @ Connect c # post \<and>
           fst (connect refusing_env (run_calls refusing_env (registry_of []) pre) c) = Inr () \<and>
           Disconnect c \<notin> set post} = 0"
    by simp
  moreover from snapshot_counts_connected [of "registry_of [1]" quiet_env "[]" 1] c
  have "active_connections (snd (connect quiet_env (registry_of [1]) 1)) = active_connections (registry_of [1]) \<and>
        trace (snd (connect quiet_env (registry_of [1]) 1)) = [Accept 1] \<and>
        fst (connect quiet_env (registry_of [1]) 1) = Inr ()"
    by (simp add: registry_of_def quiet_env_def)
  moreover from snapshot_counts_connected [of "registry_of [1]" refusing_env "[]" 1] c
  have "fst (connect refusing_env (registry_of [1]) 1) = Inl OtherException"
    by (simp add: registry_of_def refusing_env_def)
  ultimately show ?thesis using a b c by simp
qed

subsection \<open>The endpoint's protocol\<close>



text \<open>
  C7. When a client joins (its \<^verbatim>\<open>accept\<close> returns), the endpoint's first events are
  the handshake and then one write of the join notice to every member of the registry
  with the joiner added to it, nobody excluded. Over the whole run of the endpoint, for
  any number of loop iterations and any way of leaving the loop, the join notice is
  written exactly once to the joiner, exactly once to every connection registered
  before, and to no other connection.
\<close>

theorem join_notice_to_everyone:
  "accept_result env (trace w) websocket = None \<Longrightarrow>
     (\<exists>rest. trace (snd (websocket_endpoint n env w websocket client_id)) =
        trace w @ Accept websocket #
          map (\<lambda>c. SendText c (''Client #'' @ client_id @ '' joined''))
            (list_of_dlist (Dlist.insert websocket (active_connections w))) @ rest) \<and>
     (\<forall>c. count_list (drop (length (trace w)) (trace (snd (websocket_endpoint n env w websocket client_id))))
            (SendText c (''Client #'' @ client_id @ '' joined'')) =
          (if c = websocket \<or> Dlist.member (active_connections w) c then 1 else 0))"
proof -
  assume "accept_result env (trace w) websocket = None"
  from endpoint_events [OF this, of n client_id] obtain rest where
    t: "trace (snd (websocket_endpoint n env w websocket client_id)) =
           trace w @ Accept websocket #
             map (\<lambda>c. SendText c (''Client #'' @ client_id @ '' joined''))
               (list_of_dlist (Dlist.insert websocket (active_connections w))) @ rest"
    and r: "\<And>c. SendText c (''Client #'' @ client_id @ '' joined'') \<notin> set rest"
    by blast
  have "count_list (drop (length (trace w)) (trace (snd (websocket_endpoint n env w websocket client_id))))
            (SendText c (''Client #'' @ client_id @ '' joined'')) =
          (if c = websocket \<or> Dlist.member (active_connections w) c then 1 else 0)" for c
    unfolding t using count_list_notice [OF r [of c], of "list_of_dlist (Dlist.insert websocket (active_connections w))" websocket]
    by (simp add: member_iff del: count_list.simps)
  with t show ?thesis by blast
qed

theorem join_notice_to_everyone_witness:
  "accept_result chatty_env (trace (registry_of [2, 3])) 1 = None \<and>
   take 4 (trace (snd (websocket_endpoint 3 chatty_env (registry_of [2, 3]) 1 ''7''))) =
     [Accept 1, SendText 1 ''Client #7 joined'', SendText 2 ''Client #7 joined'',
      SendText 3 ''Client #7 joined''] \<and>
   count_list (trace (snd (websocket_endpoint 3 chatty_env (registry_of [2, 3]) 1 ''7'')))
     (SendText 1 ''Client #7 joined'') = 1 \<and>
   count_list (trace (snd (websocket_endpoint 3 chatty_env (registry_of [2, 3]) 1 ''7'')))
     (SendText 2 ''Client #7 joined'') = 1 \<and>
   count_list (trace (snd (websocket_endpoint 3 chatty_env (registry_of [2, 3]) 1 ''7'')))
     (SendText 4 ''Client #7 joined'') = 0"
proof -
  have a: "accept_result chatty_env (trace (registry_of [2, 3])) 1 = None"
    by (simp add: chatty_env_def)
  from join_notice_to_everyone [OF a, of 3 "''7''"] a show ?thesis
    by (auto simp: registry_of_def member_iff)
qed

end
